theory Spec2Isabelle
  imports Complex_Main "HOL-Library.Multiset"
begin

section \<open>Data model\<close>

text \<open>
  The debt engine computes on JavaScript numbers, which are IEEE 754 double-precision
  values. A finite double is a rational number (type \<open>rat\<close>), and every arithmetic
  operation returns the exact result rounded to a double. The model takes the rounding
  function as its first parameter \<open>rnd\<close>: what does not depend on how numbers round is
  proved for every \<open>rnd\<close>, what does is proved from the properties of rounding it needs,
  and concrete runs use \<open>roundDouble\<close>, rounding to the nearest double with ties to
  even. A decimal literal of the source is the double nearest to it: \<open>0.01\<close> is
  \<open>rnd (1 / 100)\<close>; the integer literals are doubles themselves. Overflow to an
  infinity and NaN operands are not modelled. Counters (\<open>month\<close>, array indices) are
  natural numbers.
\<close>

datatype DebtType = credit_card | personal_loan | student_loan | auto_loan | mortgage | other

record Debt =
  id' :: string
  name :: string
  balance :: rat
  interestRate :: rat
  minimumPayment :: rat
  dueDate :: rat
  type' :: DebtType

text \<open>The object built by \<open>{...debt, hybridScore: ...}\<close> in \<open>calculateHybridStrategy\<close>.\<close>

record ScoredDebt = Debt +
  hybridScore :: rat

datatype RepaymentStrategy = snowball | avalanche | hybrid

record PaymentBreakdown =
  month :: nat
  principal :: rat
  interest :: rat
  pbBalance :: rat
  totalPayment :: rat

record DebtAnalysis =
  strategy :: RepaymentStrategy
  totalInterest :: rat
  payoffTimeMonths :: nat
  monthlyPayment :: rat
  paymentSchedule :: "PaymentBreakdown list"
  debtOrder :: "string list"

text \<open>\<open>throw new Error(msg)\<close> becomes the value \<open>Inl (Error msg)\<close>.\<close>

datatype error = Error string


section \<open>Rounding to double precision\<close>

text \<open>The number of binary digits of a natural number.\<close>

fun bits :: "nat \<Rightarrow> nat" where
  "bits n = (if n = 0 then 0 else Suc (bits (n div 2)))"

declare bits.simps [simp del]

text \<open>For \<open>x > 0\<close>, the exponent \<open>e\<close> with \<open>2 ^ e \<le> x < 2 ^ (e + 1)\<close>.\<close>

definition binade :: "rat \<Rightarrow> int" where
  "binade x =
     (if 1 \<le> x then int (bits (nat \<lfloor>x\<rfloor>)) - 1 else - int (bits (nat (\<lceil>1 / x\<rceil> - 1))))"

text \<open>Rounding to the nearest integer, a tie going to the even one.\<close>

definition roundEven :: "rat \<Rightarrow> int" where
  "roundEven m =
     (let n = \<lfloor>m\<rfloor>; f = m - of_int n
      in if f < 1 / 2 then n else if 1 / 2 < f then n + 1 else if even n then n else n + 1)"

text \<open>
  A double has 53 significant bits; below \<open>2 ^ -1022\<close> the doubles are the multiples of
  \<open>2 ^ -1074\<close> (the subnormal numbers). \<open>roundPos\<close> rounds a positive number to a
  multiple of its unit in the last place.
\<close>

definition roundPos :: "rat \<Rightarrow> rat" where
  "roundPos x =
     (let e = max (binade x) (- 1022); u = 2 powi (e - 52)
      in of_int (roundEven (x / u)) * u)"

definition roundDouble :: "rat \<Rightarrow> rat" where
  "roundDouble x = (if x = 0 then 0 else if 0 < x then roundPos x else - roundPos (- x))"

text \<open>
  The properties of rounding that the monotonicity of the balances rests on: rounding
  keeps the order, keeps zero, and keeps a number that is already rounded.
\<close>

definition rounding :: "(rat \<Rightarrow> rat) \<Rightarrow> bool" where
  "rounding rnd \<longleftrightarrow> mono rnd \<and> rnd 0 = 0 \<and> (\<forall>x. rnd (rnd x) = rnd x)"

lemma bits_bounds: "0 < n \<Longrightarrow> 2 ^ (bits n - 1) \<le> n \<and> n < 2 ^ bits n"
proof (induction n rule: bits.induct)
  case (1 n)
  show ?case
  proof (cases "n div 2 = 0")
    case True
    then have "n = 1"
      using "1.prems" by (simp add: div_eq_0_iff)
    then show ?thesis
      by (simp add: bits.simps [of "Suc 0"] bits.simps [of 0])
  next
    case False
    then have ih: "2 ^ (bits (n div 2) - 1) \<le> n div 2 \<and> n div 2 < 2 ^ bits (n div 2)"
      using "1.IH" "1.prems" by simp
    have pos: "0 < bits (n div 2)"
      using False by (simp add: bits.simps [of "n div 2"])
    have b: "bits n = Suc (bits (n div 2))"
      using "1.prems" by (simp add: bits.simps [of n])
    have "2 * 2 ^ (bits (n div 2) - 1) \<le> n"
      using ih by linarith
    moreover have "2 * 2 ^ (bits (n div 2) - 1) = (2::nat) ^ bits (n div 2)"
      using pos by (cases "bits (n div 2)") simp_all
    moreover have "n < 2 * 2 ^ bits (n div 2)"
      using ih by linarith
    ultimately show ?thesis
      by (simp add: b)
  qed
qed

lemma bits_pos: "0 < n \<Longrightarrow> 0 < bits n"
  by (subst bits.simps) simp

lemma powi_nat: "0 \<le> e \<Longrightarrow> (2::rat) powi e = 2 ^ nat e"
  by (simp add: power_int_def)

lemma powi_neg_nat: "(2::rat) powi (- int k) = 1 / 2 ^ k"
  by (simp add: power_int_minus field_simps)

lemma powi_Suc: "(2::rat) powi (e + 1) = 2 * 2 powi e"
  by (simp add: power_int_add)

lemma powi_less_cancel: "(2::rat) powi a < 2 powi b \<Longrightarrow> a < b"
  using power_int_increasing [of b a "2::rat"] by (cases "a < b") simp_all

lemma binade_bounds:
  assumes "0 < x"
  shows "2 powi (binade x) \<le> x \<and> x < 2 powi (binade x + 1)"
proof (cases "1 \<le> x")
  case True
  define n where "n = nat \<lfloor>x\<rfloor>"
  have n: "0 < n" "of_nat n \<le> x" "x < of_nat n + 1"
    using True by (simp_all add: n_def) linarith+
  have e: "binade x = int (bits n) - 1"
    using True by (simp add: binade_def n_def)
  have pos: "0 < bits n"
    using n(1) by (rule bits_pos)
  note b = bits_bounds [OF n(1)]
  have "(2::rat) ^ (bits n - 1) \<le> of_nat n"
    using b by (metis of_nat_le_iff of_nat_numeral of_nat_power)
  then have "(2::rat) ^ (bits n - 1) \<le> x"
    using n(2) by (rule order_trans)
  moreover have "nat (int (bits n) - 1) = bits n - 1"
    by simp
  ultimately have lo: "2 powi (binade x) \<le> x"
    using pos by (simp add: e powi_nat)
  have "n + 1 \<le> 2 ^ bits n"
    using b by simp
  then have "(of_nat n + 1 :: rat) \<le> 2 ^ bits n"
    by (metis of_nat_le_iff of_nat_numeral of_nat_power of_nat_add of_nat_1)
  then have hi: "x < 2 powi (binade x + 1)"
    using n(3) by (simp add: e powi_nat)
  show ?thesis
    using lo hi by simp
next
  case False
  define y where "y = 1 / x"
  define N where "N = nat \<lceil>y\<rceil>"
  have y: "1 < y"
    using False assms by (simp add: y_def)
  then have "1 < \<lceil>y\<rceil>"
    by linarith
  then have N: "2 \<le> N" "y \<le> of_nat N" "of_nat N - 1 < y"
    by (simp_all add: N_def) linarith+
  define k where "k = bits (N - 1)"
  have "nat (\<lceil>1 / x\<rceil> - 1) = nat \<lceil>1 / x\<rceil> - 1"
    by arith
  then have e: "binade x = - int k"
    using False by (simp add: binade_def k_def N_def y_def)
  have m: "0 < N - 1"
    using N(1) by simp
  note b = bits_bounds [OF m, folded k_def]
  have pos: "0 < k"
    unfolding k_def using m by (rule bits_pos)
  have "N \<le> 2 ^ k"
    using b by linarith
  then have "(of_nat N :: rat) \<le> 2 ^ k"
    by (metis of_nat_le_iff of_nat_numeral of_nat_power)
  then have "y \<le> 2 ^ k"
    by (rule order_trans [OF N(2)])
  then have "1 / 2 ^ k \<le> x"
    using assms by (simp add: y_def field_simps)
  then have lo: "2 powi (binade x) \<le> x"
    by (simp add: e powi_neg_nat)
  have "(2::rat) ^ (k - 1) \<le> of_nat (N - 1)"
    using b by (metis of_nat_le_iff of_nat_numeral of_nat_power)
  moreover have "(of_nat (N - 1) :: rat) = of_nat N - 1"
    using N(1) by (simp add: of_nat_diff)
  ultimately have "(2::rat) ^ (k - 1) < y"
    using N(3) by linarith
  then have "x < 1 / 2 ^ (k - 1)"
    using assms by (simp add: y_def field_simps)
  moreover have "binade x + 1 = - int (k - 1)"
    using pos by (simp add: e)
  ultimately have hi: "x < 2 powi (binade x + 1)"
    by (simp only: powi_neg_nat)
  show ?thesis
    using lo hi by simp
qed

lemma binade_unique:
  assumes "2 powi e \<le> x" and "x < 2 powi (e + 1)"
  shows "binade x = e"
proof -
  have "0 < (2::rat) powi e"
    by simp
  then have pos: "0 < x"
    using assms(1) by (rule less_le_trans)
  note b = binade_bounds [OF pos]
  have "2 powi e < (2::rat) powi (binade x + 1)"
    using assms(1) b by simp
  then have "e < binade x + 1"
    by (rule powi_less_cancel)
  moreover have "2 powi (binade x) < (2::rat) powi (e + 1)"
    using assms(2) b by simp
  then have "binade x < e + 1"
    by (rule powi_less_cancel)
  ultimately show ?thesis by simp
qed

lemma binade_mono:
  assumes "0 < x" and "x \<le> y"
  shows "binade x \<le> binade y"
proof -
  have "2 powi (binade x) < (2::rat) powi (binade y + 1)"
    using binade_bounds [OF assms(1)] binade_bounds [of y] assms by simp
  then have "binade x < binade y + 1"
    by (rule powi_less_cancel)
  then show ?thesis by simp
qed

lemma roundEven_of_int [simp]: "roundEven (of_int k) = k"
  by (simp add: roundEven_def)

lemma roundEven_bounds: "\<lfloor>m\<rfloor> \<le> roundEven m \<and> roundEven m \<le> \<lfloor>m\<rfloor> + 1"
  by (simp add: roundEven_def Let_def)

lemma roundEven_mono:
  assumes "a \<le> b"
  shows "roundEven a \<le> roundEven b"
proof (cases "\<lfloor>a\<rfloor> = \<lfloor>b\<rfloor>")
  case True
  have "a - of_int \<lfloor>a\<rfloor> \<le> b - of_int \<lfloor>b\<rfloor>"
    using assms True by simp
  then show ?thesis
    unfolding roundEven_def Let_def True by auto
next
  case False
  then have "\<lfloor>a\<rfloor> + 1 \<le> \<lfloor>b\<rfloor>"
    using floor_mono [OF assms] by simp
  then show ?thesis
    using roundEven_bounds [of a] roundEven_bounds [of b] by linarith
qed

lemma roundEven_ge: "of_int k \<le> m \<Longrightarrow> k \<le> roundEven m"
  using roundEven_mono [of "of_int k" m] by simp

lemma roundEven_le: "m \<le> of_int k \<Longrightarrow> roundEven m \<le> k"
  using roundEven_mono [of m "of_int k"] by simp

text \<open>The exponent used for \<open>x\<close> and the unit in the last place.\<close>

definition expo :: "rat \<Rightarrow> int" where
  "expo x = max (binade x) (- 1022)"

lemma roundPos_alt: "roundPos x = of_int (roundEven (x / 2 powi (expo x - 52))) * 2 powi (expo x - 52)"
  by (simp add: roundPos_def expo_def Let_def)

lemma powi_split: "(2::rat) powi (e + 1) = 2 ^ 53 * 2 powi (e - 52)"
proof -
  have "(2::rat) powi (53 + (e - 52)) = 2 powi 53 * 2 powi (e - 52)"
    by (rule power_int_add) simp
  moreover have "53 + (e - 52) = e + 1"
    by simp
  ultimately show ?thesis
    by (simp only: power_int_numeral)
qed

lemma powi_split52: "(2::rat) powi e = 2 ^ 52 * 2 powi (e - 52)"
proof -
  have "(2::rat) powi (52 + (e - 52)) = 2 powi 52 * 2 powi (e - 52)"
    by (rule power_int_add) simp
  moreover have "52 + (e - 52) = e"
    by simp
  ultimately show ?thesis
    by (simp only: power_int_numeral)
qed

lemma mantissa_upper:
  assumes "0 < x"
  shows "roundEven (x / 2 powi (expo x - 52)) \<le> 2 ^ 53"
proof -
  have "binade x + 1 \<le> expo x + 1"
    by (simp add: expo_def)
  then have "(2::rat) powi (binade x + 1) \<le> 2 powi (expo x + 1)"
    by (intro power_int_increasing) simp_all
  then have "x \<le> 2 powi (expo x + 1)"
    using binade_bounds [OF assms] by simp
  then have "x \<le> 2 ^ 53 * 2 powi (expo x - 52)"
    by (simp only: powi_split)
  then have "x / 2 powi (expo x - 52) \<le> 2 ^ 53"
    by (simp add: field_simps)
  then have "x / 2 powi (expo x - 52) \<le> of_int (2 ^ 53)"
    by simp
  then show ?thesis
    by (rule roundEven_le)
qed

lemma mantissa_lower:
  assumes "0 < x" and "expo x = binade x"
  shows "2 ^ 52 \<le> roundEven (x / 2 powi (expo x - 52))"
proof -
  have "2 powi (expo x) \<le> x"
    using binade_bounds [OF assms(1)] assms(2) by simp
  then have "2 ^ 52 * 2 powi (expo x - 52) \<le> x"
    by (simp only: powi_split52 [of "expo x", symmetric])
  then have "2 ^ 52 \<le> x / 2 powi (expo x - 52)"
    by (simp add: field_simps)
  then have "of_int (2 ^ 52) \<le> x / 2 powi (expo x - 52)"
    by simp
  then show ?thesis
    by (rule roundEven_ge)
qed

lemma roundPos_nonneg:
  assumes "0 < x"
  shows "0 \<le> roundPos x"
proof -
  have "of_int 0 \<le> x / 2 powi (expo x - 52)"
    using assms by simp
  then have "0 \<le> roundEven (x / 2 powi (expo x - 52))"
    by (rule roundEven_ge)
  then show ?thesis
    by (simp add: roundPos_alt)
qed

lemma roundPos_mono:
  assumes "0 < x" and "x \<le> y"
  shows "roundPos x \<le> roundPos y"
proof -
  have y: "0 < y"
    using assms by simp
  have le: "expo x \<le> expo y"
    using binade_mono [OF assms] by (simp add: expo_def)
  show ?thesis
  proof (cases "expo x = expo y")
    case True
    have "x / 2 powi (expo y - 52) \<le> y / 2 powi (expo y - 52)"
      using assms(2) by (simp add: divide_right_mono)
    then have "roundEven (x / 2 powi (expo y - 52)) \<le> roundEven (y / 2 powi (expo y - 52))"
      by (rule roundEven_mono)
    then show ?thesis
      by (simp add: roundPos_alt True mult_right_mono)
  next
    case False
    then have lt: "expo x + 1 \<le> expo y"
      using le by simp
    then have normal: "expo y = binade y"
      by (simp add: expo_def)
    have "(of_int (roundEven (x / 2 powi (expo x - 52))) :: rat) \<le> of_int (2 ^ 53)"
      using mantissa_upper [OF assms(1)] by (simp only: of_int_le_iff)
    then have "roundPos x \<le> of_int (2 ^ 53) * 2 powi (expo x - 52)"
      unfolding roundPos_alt by (rule mult_right_mono) simp
    also have "\<dots> = 2 powi (expo x + 1)"
      by (simp add: powi_split [of "expo x"])
    also have "\<dots> \<le> 2 powi (expo y)"
      using lt by (intro power_int_increasing) simp_all
    also have "\<dots> = of_int (2 ^ 52) * 2 powi (expo y - 52)"
      using powi_split52 [of "expo y"] by simp
    also have "\<dots> \<le> roundPos y"
    proof -
      have "(of_int (2 ^ 52) :: rat) \<le> of_int (roundEven (y / 2 powi (expo y - 52)))"
        using mantissa_lower [OF y normal] by (simp only: of_int_le_iff)
      then show ?thesis
        unfolding roundPos_alt by (rule mult_right_mono) simp
    qed
    finally show ?thesis .
  qed
qed

lemma roundDouble_zero [simp]: "roundDouble 0 = 0"
  by (simp add: roundDouble_def)

lemma roundDouble_mono:
  assumes "x \<le> y"
  shows "roundDouble x \<le> roundDouble y"
proof -
  consider "0 < x" | "x \<le> 0" "0 \<le> y" | "y < 0"
    using assms by linarith
  then show ?thesis
  proof cases
    case 1
    then show ?thesis
      using assms roundPos_mono [of x y] by (simp add: roundDouble_def)
  next
    case 2
    have "roundDouble x \<le> 0"
      using 2(1) roundPos_nonneg [of "- x"] by (simp add: roundDouble_def)
    moreover have "0 \<le> roundDouble y"
      using 2(2) roundPos_nonneg [of y] by (simp add: roundDouble_def)
    ultimately show ?thesis by simp
  next
    case 3
    then have "roundPos (- y) \<le> roundPos (- x)"
      using assms by (intro roundPos_mono) simp_all
    then show ?thesis
      using 3 assms by (simp add: roundDouble_def)
  qed
qed

lemma roundPos_fixed:
  assumes v: "v = of_int n * 2 powi (E - 52)"
    and n: "0 < n" "n \<le> 2 ^ 53"
    and E: "- 1022 \<le> E"
    and normal: "2 ^ 52 \<le> n \<or> E = - 1022"
  shows "roundPos v = v"
proof -
  have upos: "0 < (2::rat) powi (E - 52)"
    by simp
  consider "n = 2 ^ 53" | "2 ^ 52 \<le> n" "n < 2 ^ 53" | "n < 2 ^ 52" "E = - 1022"
    using n normal by linarith
  then show ?thesis
  proof cases
    case 1
    have v1: "v = 2 powi (E + 1)"
      by (simp add: v 1 powi_split [of E])
    have "v < 2 powi (E + 1 + 1)"
      unfolding v1 by (intro power_int_strict_increasing) simp_all
    then have "binade v = E + 1"
      using v1 by (intro binade_unique) simp_all
    then have e: "expo v = E + 1"
      using E by (simp add: expo_def)
    have s: "(2::rat) powi (E + 1) = of_int (2 ^ 52) * 2 powi (E + 1 - 52)"
      using powi_split52 [of "E + 1"] by simp
    have "v / 2 powi (E + 1 - 52) = of_int (2 ^ 52)"
      unfolding v1 by (subst s) simp
    then have "v / 2 powi (expo v - 52) = of_int (2 ^ 52)"
      by (simp only: e)
    then have "roundPos v = of_int (2 ^ 52) * 2 powi (E + 1 - 52)"
      unfolding roundPos_alt by (simp only: roundEven_of_int e)
    then show ?thesis
      by (simp only: v1 s)
  next
    case 2
    have "(of_int (2 ^ 52) :: rat) \<le> of_int n"
      using 2(1) by (simp only: of_int_le_iff)
    then have "of_int (2 ^ 52) * 2 powi (E - 52) \<le> v"
      unfolding v by (rule mult_right_mono) simp
    then have lo: "2 powi E \<le> v"
      by (simp add: powi_split52 [of E])
    have "(of_int n :: rat) < of_int (2 ^ 53)"
      using 2(2) by (simp only: of_int_less_iff)
    then have "v < of_int (2 ^ 53) * 2 powi (E - 52)"
      unfolding v by (rule mult_strict_right_mono) simp
    then have hi: "v < 2 powi (E + 1)"
      by (simp add: powi_split [of E])
    have "binade v = E"
      using lo hi by (rule binade_unique)
    then have e: "expo v = E"
      using E by (simp add: expo_def)
    have "v / 2 powi (E - 52) = of_int n"
      by (simp add: v)
    then have "roundEven (v / 2 powi (expo v - 52)) = n"
      by (simp only: e roundEven_of_int)
    then show ?thesis
      unfolding roundPos_alt e by (simp only: v)
  next
    case 3
    have vpos: "0 < v"
      unfolding v using n(1) by (simp add: zero_less_mult_iff)
    have "(of_int n :: rat) < of_int (2 ^ 52)"
      using 3(1) by (simp only: of_int_less_iff)
    then have "v < of_int (2 ^ 52) * 2 powi (E - 52)"
      unfolding v by (rule mult_strict_right_mono) simp
    then have "v < 2 powi E"
      by (simp add: powi_split52 [of E])
    then have "2 powi (binade v) < (2::rat) powi E"
      using binade_bounds [OF vpos] by simp
    then have "binade v < E"
      by (rule powi_less_cancel)
    then have e: "expo v = E"
      using 3(2) by (simp add: expo_def)
    have "v / 2 powi (E - 52) = of_int n"
      by (simp add: v)
    then have "roundEven (v / 2 powi (expo v - 52)) = n"
      by (simp only: e roundEven_of_int)
    then show ?thesis
      unfolding roundPos_alt e by (simp only: v)
  qed
qed

lemma roundPos_idem:
  assumes "0 < x" and "0 < roundPos x"
  shows "roundPos (roundPos x) = roundPos x"
proof -
  define n where "n = roundEven (x / 2 powi (expo x - 52))"
  have v: "roundPos x = of_int n * 2 powi (expo x - 52)"
    by (simp add: roundPos_alt n_def)
  have "0 < of_int n * (2::rat) powi (expo x - 52)"
    using assms(2) v by simp
  moreover have "\<not> (2::rat) powi (expo x - 52) < 0"
    by (simp add: not_less)
  ultimately have npos: "0 < n"
    by (simp add: zero_less_mult_iff)
  have up: "n \<le> 2 ^ 53"
    unfolding n_def by (rule mantissa_upper [OF assms(1)])
  have E: "- 1022 \<le> expo x"
    by (simp add: expo_def)
  have "2 ^ 52 \<le> n \<or> expo x = - 1022"
  proof (cases "expo x = binade x")
    case True
    then show ?thesis
      using mantissa_lower [OF assms(1) True] by (simp add: n_def)
  next
    case False
    then show ?thesis
      by (simp add: expo_def max_def split: if_splits)
  qed
  then show ?thesis
    using v npos up E by (intro roundPos_fixed)
qed

lemma roundDouble_idem: "roundDouble (roundDouble x) = roundDouble x"
proof -
  consider "x = 0" | "0 < x" | "x < 0"
    by linarith
  then show ?thesis
  proof cases
    case 1
    then show ?thesis by simp
  next
    case 2
    then have r: "roundDouble x = roundPos x"
      by (simp add: roundDouble_def)
    show ?thesis
    proof (cases "roundPos x = 0")
      case True
      then show ?thesis by (simp add: r)
    next
      case False
      then have p: "0 < roundPos x"
        using roundPos_nonneg [OF 2] by simp
      then have "roundDouble (roundPos x) = roundPos (roundPos x)"
        by (simp add: roundDouble_def)
      also have "\<dots> = roundPos x"
        using roundPos_idem [OF 2 p] .
      finally show ?thesis
        by (simp only: r)
    qed
  next
    case 3
    then have r: "roundDouble x = - roundPos (- x)"
      by (simp add: roundDouble_def)
    show ?thesis
    proof (cases "roundPos (- x) = 0")
      case True
      then show ?thesis by (simp add: r)
    next
      case False
      then have p: "0 < roundPos (- x)"
        using roundPos_nonneg [of "- x"] 3 by simp
      then have "roundDouble (- roundPos (- x)) = - roundPos (roundPos (- x))"
        by (simp add: roundDouble_def)
      also have "\<dots> = - roundPos (- x)"
        using roundPos_idem [of "- x"] 3 p by simp
      finally show ?thesis
        by (simp only: r)
    qed
  qed
qed

lemma rounding_roundDouble: "rounding roundDouble"
  unfolding rounding_def mono_def
  using roundDouble_mono roundDouble_idem by simp

lemma rounding_exact: "rounding (\<lambda>x. x)"
  by (simp add: rounding_def mono_def)

section \<open>Arithmetic helpers\<close>

text \<open>\<open>annualRate / 100 / 12\<close>: two divisions, each rounded.\<close>

definition calculateMonthlyRate :: "(rat \<Rightarrow> rat) \<Rightarrow> rat \<Rightarrow> rat" where
  "calculateMonthlyRate rnd annualRate = rnd (rnd (annualRate / 100) / 12)"

section \<open>Ordering policies\<close>

text \<open>
  \<open>Array.prototype.sort(cmp)\<close> is a stable sort: for a comparator that is a consistent
  ordering, the result is the stable arrangement by that ordering, whatever algorithm the
  engine uses. It is modelled by insertion sort, where an element is placed before the
  first element it does not compare greater than. The comparators of the source return
  a difference of two doubles; its sign is the sign of the exact difference, which is
  what the model's comparators return.
\<close>

fun insertBy :: "('a \<Rightarrow> 'a \<Rightarrow> rat) \<Rightarrow> 'a \<Rightarrow> 'a list \<Rightarrow> 'a list" where
  "insertBy cmp x [] = [x]"
| "insertBy cmp x (y # ys) = (if cmp x y \<le> 0 then x # y # ys else y # insertBy cmp x ys)"

definition sortBy :: "('a \<Rightarrow> 'a \<Rightarrow> rat) \<Rightarrow> 'a list \<Rightarrow> 'a list" where
  "sortBy cmp xs = foldr (insertBy cmp) xs []"

text \<open>\<open>[...debts].sort((a, b) => a.balance - b.balance)\<close>\<close>

definition snowballSorted :: "'a Debt_scheme list \<Rightarrow> 'a Debt_scheme list" where
  "snowballSorted debts = sortBy (\<lambda>a b. balance a - balance b) debts"

text \<open>\<open>[...debts].sort((a, b) => b.interestRate - a.interestRate)\<close>\<close>

definition avalancheSorted :: "'a Debt_scheme list \<Rightarrow> 'a Debt_scheme list" where
  "avalancheSorted debts = sortBy (\<lambda>a b. interestRate b - interestRate a) debts"

text \<open>\<open>debts.map(debt => ({...debt, hybridScore: ...}))\<close> followed by the sort on the score.\<close>

definition scoreDebt :: "(rat \<Rightarrow> rat) \<Rightarrow> Debt \<Rightarrow> ScoredDebt" where
  "scoreDebt rnd debt =
     Debt.extend debt
       (ScoredDebt.fields
          (rnd (rnd (rnd (balance debt / 10000) * rnd (4 / 10))
                + rnd (interestRate debt * rnd (6 / 10)))))"

definition hybridSorted :: "(rat \<Rightarrow> rat) \<Rightarrow> Debt list \<Rightarrow> ScoredDebt list" where
  "hybridSorted rnd debts =
     sortBy (\<lambda>a b. hybridScore a - hybridScore b) (map (scoreDebt rnd) debts)"

section \<open>The simulation\<close>

text \<open>
  The local variables of \<open>calculateDebtStrategy\<close> that the loops read and write. The
  inner \<open>for\<close> loop updates the debt copies, \<open>order\<close> (the source's \<open>debtOrder\<close>),
  \<open>monthlyInterest\<close>, \<open>monthlyPrincipal\<close> and \<open>extraPayment\<close>; the \<open>while\<close> loop
  also updates \<open>schedule\<close>, \<open>monthCounter\<close> and \<open>interestTotal\<close> (the source's
  \<open>paymentSchedule\<close>, \<open>month\<close> and \<open>totalInterest\<close>). In \<open>State\<close> the copies are
  held by value, as a list of records.
\<close>

record Locals =
  order :: "string list"
  schedule :: "PaymentBreakdown list"
  monthCounter :: nat
  interestTotal :: rat
  monthlyInterest :: rat
  monthlyPrincipal :: rat
  extraPayment :: rat

record 'a State = Locals +
  debtCopies :: "'a Debt_scheme list"

text \<open>One iteration of the \<open>for\<close> loop, at index \<open>i < debtCopies.length\<close>.\<close>

definition processDebt :: "(rat \<Rightarrow> rat) \<Rightarrow> nat \<Rightarrow> 'a State \<Rightarrow> 'a State" where
  "processDebt rnd i st =
     (let debt = debtCopies st ! i in
      if balance debt \<le> rnd (1 / 100) then st
      else
        let monthlyRate = calculateMonthlyRate rnd (interestRate debt);
            interestPayment = rnd (balance debt * monthlyRate);
            applyExtra = (extraPayment st > 0 \<and> i = 0);
            payment = (if applyExtra then rnd (minimumPayment debt + extraPayment st)
                       else minimumPayment debt);
            principalPayment = min (rnd (payment - interestPayment)) (balance debt);
            newBalance = rnd (balance debt - principalPayment);
            paidOff = (newBalance \<le> rnd (1 / 100) \<and> id' debt \<notin> set (order st))
        in st\<lparr>debtCopies :=
                 (debtCopies st)[i := debt\<lparr>balance := (if paidOff then 0 else newBalance)\<rparr>],
               order := (if paidOff then order st @ [id' debt] else order st),
               monthlyInterest := rnd (monthlyInterest st + interestPayment),
               monthlyPrincipal := rnd (monthlyPrincipal st + principalPayment),
               extraPayment := (if applyExtra then 0 else extraPayment st)\<rparr>)"

text \<open>\<open>for (let i = 0; i < debtCopies.length; i++)\<close>; the body keeps the array's length.\<close>

definition forLoop :: "(rat \<Rightarrow> rat) \<Rightarrow> 'a State \<Rightarrow> 'a State" where
  "forLoop rnd st = fold (processDebt rnd) [0..<length (debtCopies st)] st"

text \<open>\<open>debtCopies.reduce((sum, debt) => sum + debt.balance, 0)\<close>\<close>

definition totalBalance :: "(rat \<Rightarrow> rat) \<Rightarrow> 'a Debt_scheme list \<Rightarrow> rat" where
  "totalBalance rnd ds = foldl (\<lambda>sum debt. rnd (sum + balance debt)) 0 ds"

text \<open>\<open>debtCopies.reduce((sum, debt) => sum + debt.minimumPayment, 0)\<close>\<close>

definition totalMinimumsOf :: "(rat \<Rightarrow> rat) \<Rightarrow> 'a Debt_scheme list \<Rightarrow> rat" where
  "totalMinimumsOf rnd ds = foldl (\<lambda>sum debt. rnd (sum + minimumPayment debt)) 0 ds"

text \<open>The body of the \<open>while\<close> loop: one simulated month.\<close>

definition monthBody :: "(rat \<Rightarrow> rat) \<Rightarrow> rat \<Rightarrow> rat \<Rightarrow> 'a State \<Rightarrow> 'a State" where
  "monthBody rnd availablePayment totalMinimums st =
     (let st1 = forLoop rnd (st\<lparr>monthlyInterest := 0, monthlyPrincipal := 0,
                                 extraPayment := rnd (availablePayment - totalMinimums)\<rparr>)
      in st1\<lparr>interestTotal := rnd (interestTotal st1 + monthlyInterest st1),
              schedule := schedule st1 @
                [\<lparr>month = monthCounter st1,
                  principal = monthlyPrincipal st1,
                  interest = monthlyInterest st1,
                  pbBalance = totalBalance rnd (debtCopies st1),
                  totalPayment = rnd (monthlyPrincipal st1 + monthlyInterest st1)\<rparr>],
              monthCounter := monthCounter st1 + 1\<rparr>)"

text \<open>\<open>debtCopies.some(debt => debt.balance > 0.01) && month <= 600\<close>\<close>

definition loopCond :: "(rat \<Rightarrow> rat) \<Rightarrow> 'a State \<Rightarrow> bool" where
  "loopCond rnd st \<longleftrightarrow>
     list_ex (\<lambda>debt. balance debt > rnd (1 / 100)) (debtCopies st) \<and> monthCounter st \<le> 600"

lemma length_processDebt [simp]:
  "length (debtCopies (processDebt rnd i st)) = length (debtCopies st)"
  by (simp add: processDebt_def Let_def)

lemma monthCounter_processDebt [simp]: "monthCounter (processDebt rnd i st) = monthCounter st"
  by (simp add: processDebt_def Let_def)

lemma monthCounter_fold_processDebt [simp]:
  "monthCounter (fold (processDebt rnd) is st) = monthCounter st"
  by (induction "is" arbitrary: st) simp_all

lemma monthCounter_monthBody [simp]:
  "monthCounter (monthBody rnd availablePayment totalMinimums st) = monthCounter st + 1"
  by (simp add: monthBody_def forLoop_def Let_def)

function whileLoop :: "(rat \<Rightarrow> rat) \<Rightarrow> rat \<Rightarrow> rat \<Rightarrow> 'a State \<Rightarrow> 'a State" where
  "whileLoop rnd availablePayment totalMinimums st =
     (if loopCond rnd st then whileLoop rnd availablePayment totalMinimums
                                (monthBody rnd availablePayment totalMinimums st)
      else st)"
  by pat_completeness auto
termination
  by (relation "measure (\<lambda>(rnd, a, t, st). 601 - monthCounter st)") (auto simp: loopCond_def)

declare whileLoop.simps [simp del]

definition calculateDebtStrategy ::
  "(rat \<Rightarrow> rat) \<Rightarrow> 'a Debt_scheme list \<Rightarrow> rat \<Rightarrow> RepaymentStrategy
     \<Rightarrow> error + DebtAnalysis" where
  "calculateDebtStrategy rnd sortedDebts availablePayment strat =
     (let copies = map (\<lambda>debt. debt) sortedDebts;
          totalMinimums = totalMinimumsOf rnd copies
      in if totalMinimums > availablePayment
         then Inl (Error ''Available payment is less than total minimum payments required'')
         else
           let st = whileLoop rnd availablePayment totalMinimums
                      \<lparr>order = [], schedule = [], monthCounter = 1,
                       interestTotal = 0, monthlyInterest = 0, monthlyPrincipal = 0,
                       extraPayment = 0, debtCopies = copies\<rparr>
           in Inr \<lparr>strategy = strat,
                   totalInterest = interestTotal st,
                   payoffTimeMonths = monthCounter st - 1,
                   monthlyPayment = availablePayment,
                   paymentSchedule = schedule st,
                   debtOrder = order st\<rparr>)"

definition calculateSnowballStrategy ::
  "(rat \<Rightarrow> rat) \<Rightarrow> 'a Debt_scheme list \<Rightarrow> rat \<Rightarrow> error + DebtAnalysis" where
  "calculateSnowballStrategy rnd debts availablePayment =
     calculateDebtStrategy rnd (snowballSorted debts) availablePayment snowball"

definition calculateAvalancheStrategy ::
  "(rat \<Rightarrow> rat) \<Rightarrow> 'a Debt_scheme list \<Rightarrow> rat \<Rightarrow> error + DebtAnalysis" where
  "calculateAvalancheStrategy rnd debts availablePayment =
     calculateDebtStrategy rnd (avalancheSorted debts) availablePayment avalanche"

definition calculateHybridStrategy ::
  "(rat \<Rightarrow> rat) \<Rightarrow> Debt list \<Rightarrow> rat \<Rightarrow> error + DebtAnalysis" where
  "calculateHybridStrategy rnd debts availablePayment =
     calculateDebtStrategy rnd (hybridSorted rnd debts) availablePayment hybrid"


section \<open>General facts about the loops\<close>

text \<open>Without rounding, the two reductions are the sums of the fields.\<close>

lemma foldl_plus_sum_list:
  "foldl (\<lambda>sum x. sum + f x) (a::rat) xs = a + sum_list (map f xs)"
  by (induction xs arbitrary: a) (simp_all add: add.assoc)

lemma totalMinimumsOf_exact: "totalMinimumsOf (\<lambda>x. x) ds = sum_list (map minimumPayment ds)"
  by (simp add: totalMinimumsOf_def foldl_plus_sum_list)

lemma totalBalance_exact: "totalBalance (\<lambda>x. x) ds = sum_list (map balance ds)"
  by (simp add: totalBalance_def foldl_plus_sum_list)

lemma mset_insertBy: "mset (insertBy cmp x xs) = add_mset x (mset xs)"
  by (induction xs) simp_all

lemma mset_sortBy: "mset (sortBy cmp xs) = mset xs"
  by (induction xs) (simp_all add: sortBy_def mset_insertBy)

lemma sum_list_map_sortBy:
  "sum_list (map f (sortBy cmp xs)) = sum_list (map (f :: 'a \<Rightarrow> rat) xs)"
proof -
  have "mset (map f (sortBy cmp xs)) = mset (map f xs)"
    by (simp add: mset_sortBy)
  then show ?thesis
    by (metis sum_mset_sum_list)
qed

lemma minimumPayment_scoreDebt: "minimumPayment (scoreDebt rnd d) = minimumPayment d"
  by (simp add: scoreDebt_def Debt.defs ScoredDebt.defs)

lemma id_scoreDebt: "id' (scoreDebt rnd d) = id' d"
  by (simp add: scoreDebt_def Debt.defs ScoredDebt.defs)

lemma balance_scoreDebt: "balance (scoreDebt rnd d) = balance d"
  by (simp add: scoreDebt_def Debt.defs ScoredDebt.defs)

lemma interestRate_scoreDebt: "interestRate (scoreDebt rnd d) = interestRate d"
  by (simp add: scoreDebt_def Debt.defs ScoredDebt.defs)

lemma hybridScore_scoreDebt:
  "hybridScore (scoreDebt rnd d) =
     rnd (rnd (rnd (balance d / 10000) * rnd (4 / 10)) + rnd (interestRate d * rnd (6 / 10)))"
  by (simp add: scoreDebt_def Debt.defs ScoredDebt.defs)

text \<open>An invariant of the \<open>for\<close> loop's body holds after the loop.\<close>

lemma fold_processDebt_invariant:
  assumes "P st"
    and "\<And>i s. P s \<Longrightarrow> i \<in> set is \<Longrightarrow> P (processDebt rnd i s)"
  shows "P (fold (processDebt rnd) is st)"
  using assms by (induction "is" arbitrary: st) simp_all

text \<open>An invariant of the \<open>while\<close> loop's body holds when the loop exits.\<close>

lemma whileLoop_invariant:
  assumes "P st"
    and "\<And>s. P s \<Longrightarrow> loopCond rnd s \<Longrightarrow> P (monthBody rnd a t s)"
  shows "P (whileLoop rnd a t st)"
  using assms
proof (induction rnd a t st rule: whileLoop.induct)
  case (1 rnd a t st)
  show ?case
  proof (cases "loopCond rnd st")
    case True
    then have "P (monthBody rnd a t st)"
      using "1.prems" by blast
    then have "P (whileLoop rnd a t (monthBody rnd a t st))"
      using "1.IH" [OF True] "1.prems"(2) by blast
    then show ?thesis
      using True by (simp add: whileLoop.simps [of rnd a t st])
  next
    case False
    then show ?thesis
      using "1.prems"(1) by (simp add: whileLoop.simps [of rnd a t st])
  qed
qed

lemma whileLoop_exit: "\<not> loopCond rnd (whileLoop rnd a t st)"
proof (induction rnd a t st rule: whileLoop.induct)
  case (1 rnd a t st)
  then show ?case
    by (cases "loopCond rnd st") (simp_all add: whileLoop.simps [of rnd a t st])
qed

lemma whileLoop_stop: "\<not> loopCond rnd st \<Longrightarrow> whileLoop rnd a t st = st"
  by (simp add: whileLoop.simps [of rnd a t st])

lemma whileLoop_step:
  "loopCond rnd st \<Longrightarrow> whileLoop rnd a t st = whileLoop rnd a t (monthBody rnd a t st)"
  by (simp add: whileLoop.simps [of rnd a t st])

text \<open>The initial values of the local variables.\<close>

definition initialState :: "'a Debt_scheme list \<Rightarrow> 'a State" where
  "initialState copies =
     \<lparr>order = [], schedule = [], monthCounter = 1,
      interestTotal = 0, monthlyInterest = 0, monthlyPrincipal = 0, extraPayment = 0,
      debtCopies = copies\<rparr>"

lemma calculateDebtStrategy_unfold:
  "calculateDebtStrategy rnd ds ap strat =
     (if totalMinimumsOf rnd ds > ap
      then Inl (Error ''Available payment is less than total minimum payments required'')
      else Inr \<lparr>strategy = strat,
                totalInterest = interestTotal (whileLoop rnd ap (totalMinimumsOf rnd ds) (initialState ds)),
                payoffTimeMonths = monthCounter (whileLoop rnd ap (totalMinimumsOf rnd ds) (initialState ds)) - 1,
                monthlyPayment = ap,
                paymentSchedule = schedule (whileLoop rnd ap (totalMinimumsOf rnd ds) (initialState ds)),
                debtOrder = order (whileLoop rnd ap (totalMinimumsOf rnd ds) (initialState ds))\<rparr>)"
  by (simp add: calculateDebtStrategy_def initialState_def Let_def)

section \<open>The empty debt list\<close>

lemma calculateDebtStrategy_Nil:
  assumes "0 \<le> availablePayment"
  shows "calculateDebtStrategy rnd [] availablePayment strat =
           Inr \<lparr>strategy = strat, totalInterest = 0, payoffTimeMonths = 0,
                monthlyPayment = availablePayment, paymentSchedule = [], debtOrder = []\<rparr>"
  using assms
  by (simp add: calculateDebtStrategy_unfold totalMinimumsOf_def whileLoop_stop loopCond_def
      initialState_def)

text \<open>
  Claim C10. For the empty debt list and any non-negative budget, none of the three
  strategy functions fails: each returns total interest 0, payoff time 0 months, an
  empty payment schedule and an empty payoff order.
\<close>

theorem empty_debts_succeed:
  assumes "0 \<le> availablePayment"
  shows "calculateSnowballStrategy rnd ([] :: Debt list) availablePayment =
           Inr \<lparr>strategy = snowball, totalInterest = 0, payoffTimeMonths = 0,
                monthlyPayment = availablePayment, paymentSchedule = [], debtOrder = []\<rparr>
       \<and> calculateAvalancheStrategy rnd ([] :: Debt list) availablePayment =
           Inr \<lparr>strategy = avalanche, totalInterest = 0, payoffTimeMonths = 0,
                monthlyPayment = availablePayment, paymentSchedule = [], debtOrder = []\<rparr>
       \<and> calculateHybridStrategy rnd [] availablePayment =
           Inr \<lparr>strategy = hybrid, totalInterest = 0, payoffTimeMonths = 0,
                monthlyPayment = availablePayment, paymentSchedule = [], debtOrder = []\<rparr>"
  using assms
  by (simp add: calculateSnowballStrategy_def calculateAvalancheStrategy_def
      calculateHybridStrategy_def snowballSorted_def avalancheSorted_def hybridSorted_def
      sortBy_def calculateDebtStrategy_Nil)

theorem empty_debts_succeed_witness:
  "(0::rat) \<le> 250
   \<and> calculateSnowballStrategy roundDouble ([] :: Debt list) 250 =
       Inr \<lparr>strategy = snowball, totalInterest = 0, payoffTimeMonths = 0,
            monthlyPayment = 250, paymentSchedule = [], debtOrder = []\<rparr>
   \<and> calculateAvalancheStrategy roundDouble ([] :: Debt list) 250 =
       Inr \<lparr>strategy = avalanche, totalInterest = 0, payoffTimeMonths = 0,
            monthlyPayment = 250, paymentSchedule = [], debtOrder = []\<rparr>
   \<and> calculateHybridStrategy roundDouble [] 250 =
       Inr \<lparr>strategy = hybrid, totalInterest = 0, payoffTimeMonths = 0,
            monthlyPayment = 250, paymentSchedule = [], debtOrder = []\<rparr>"
  using empty_debts_succeed [of 250 roundDouble] by simp


section \<open>Example debts\<close>

text \<open>The debts of the specification's examples, and two small debts without interest.\<close>

definition loan1200 :: Debt where
  "loan1200 = \<lparr>id' = ''loan'', name = ''Loan'', balance = 1200, interestRate = 12,
                minimumPayment = 200, dueDate = 1, type' = personal_loan\<rparr>"

definition debtA :: Debt where
  "debtA = \<lparr>id' = ''A'', name = ''Card A'', balance = 500, interestRate = 20,
             minimumPayment = 50, dueDate = 5, type' = credit_card\<rparr>"

definition debtB :: Debt where
  "debtB = \<lparr>id' = ''B'', name = ''Loan B'', balance = 5000, interestRate = 10,
             minimumPayment = 100, dueDate = 10, type' = auto_loan\<rparr>"

definition small1 :: Debt where
  "small1 = \<lparr>id' = ''s1'', name = ''Small 1'', balance = 100, interestRate = 0,
              minimumPayment = 50, dueDate = 1, type' = other\<rparr>"

definition small2 :: Debt where
  "small2 = \<lparr>id' = ''s2'', name = ''Small 2'', balance = 120, interestRate = 0,
              minimumPayment = 50, dueDate = 1, type' = other\<rparr>"

text \<open>
  Three small debts whose minimum payments are 1, 1.2 and 1.2 (the doubles nearest to
  these decimals); ascending balance lists them as x, y, z and descending rate as y, z, x.
\<close>

definition cardX :: Debt where
  "cardX = \<lparr>id' = ''x'', name = ''Card X'', balance = 50, interestRate = 10,
             minimumPayment = 1, dueDate = 1, type' = credit_card\<rparr>"

definition cardY :: Debt where
  "cardY = \<lparr>id' = ''y'', name = ''Card Y'', balance = 60, interestRate = 20,
             minimumPayment = roundDouble (6 / 5), dueDate = 1, type' = credit_card\<rparr>"

definition cardZ :: Debt where
  "cardZ = \<lparr>id' = ''z'', name = ''Card Z'', balance = 70, interestRate = 20,
             minimumPayment = roundDouble (6 / 5), dueDate = 1, type' = credit_card\<rparr>"

section \<open>The insufficient-payment error\<close>

text \<open>The guard is the only exit with an error, and it is taken before the loop.\<close>

lemma calculateDebtStrategy_fails:
  "(calculateDebtStrategy rnd ds ap strat =
      Inl (Error ''Available payment is less than total minimum payments required''))
     = (ap < totalMinimumsOf rnd ds)"
  by (simp add: calculateDebtStrategy_unfold)

lemma calculateDebtStrategy_succeeds:
  "(\<exists>r. calculateDebtStrategy rnd ds ap strat = Inr r) = (totalMinimumsOf rnd ds \<le> ap)"
  by (simp add: calculateDebtStrategy_unfold not_less)

lemma calculateDebtStrategy_error:
  "calculateDebtStrategy rnd ds ap strat = Inl e \<Longrightarrow>
     e = Error ''Available payment is less than total minimum payments required''"
  by (simp add: calculateDebtStrategy_unfold split: if_splits)

lemma totalMinimumsOf_sortBy_exact:
  "totalMinimumsOf (\<lambda>x. x) (sortBy cmp ds) = sum_list (map minimumPayment ds)"
  by (simp add: totalMinimumsOf_exact sum_list_map_sortBy)

lemma totalMinimumsOf_hybridSorted_exact:
  "totalMinimumsOf (\<lambda>x. x) (hybridSorted rnd debts) = sum_list (map minimumPayment debts)"
  by (simp add: totalMinimumsOf_exact hybridSorted_def sum_list_map_sortBy comp_def
      minimumPayment_scoreDebt)

text \<open>
  Claim C3. The simulation fails if and only if the sum of the minimum payments, as the
  code computes it, strictly exceeds the available monthly payment: the sum is taken in
  double precision, left to right over the debts in the order the strategy has put them
  in. The failure is the insufficient-payment error, raised before the loop runs, so
  that no schedule and no result is produced (the value is \<open>Inl\<close> of the error and
  carries no analysis); otherwise an analysis is returned. This holds for
  \<open>calculateDebtStrategy\<close> on the ordered list and for each of the three strategy
  functions on the caller's list. In arithmetic without rounding the computed sum is the
  sum of the minimum payments of the caller's list, whatever the order.
\<close>

theorem insufficient_payment_iff:
  "(calculateDebtStrategy rnd ds ap strat =
      Inl (Error ''Available payment is less than total minimum payments required''))
     = (ap < totalMinimumsOf rnd ds)
   \<and> (\<exists>r. calculateDebtStrategy rnd ds ap strat = Inr r) = (totalMinimumsOf rnd ds \<le> ap)
   \<and> (calculateSnowballStrategy rnd ds ap =
      Inl (Error ''Available payment is less than total minimum payments required''))
     = (ap < totalMinimumsOf rnd (snowballSorted ds))
   \<and> (\<exists>r. calculateSnowballStrategy rnd ds ap = Inr r)
     = (totalMinimumsOf rnd (snowballSorted ds) \<le> ap)
   \<and> (calculateAvalancheStrategy rnd ds ap =
      Inl (Error ''Available payment is less than total minimum payments required''))
     = (ap < totalMinimumsOf rnd (avalancheSorted ds))
   \<and> (\<exists>r. calculateAvalancheStrategy rnd ds ap = Inr r)
     = (totalMinimumsOf rnd (avalancheSorted ds) \<le> ap)
   \<and> (calculateHybridStrategy rnd debts ap =
      Inl (Error ''Available payment is less than total minimum payments required''))
     = (ap < totalMinimumsOf rnd (hybridSorted rnd debts))
   \<and> (\<exists>r. calculateHybridStrategy rnd debts ap = Inr r)
     = (totalMinimumsOf rnd (hybridSorted rnd debts) \<le> ap)
   \<and> totalMinimumsOf (\<lambda>x. x) (snowballSorted ds) = sum_list (map minimumPayment ds)
   \<and> totalMinimumsOf (\<lambda>x. x) (avalancheSorted ds) = sum_list (map minimumPayment ds)
   \<and> totalMinimumsOf (\<lambda>x. x) (hybridSorted (\<lambda>x. x) debts)
     = sum_list (map minimumPayment debts)"
  unfolding calculateSnowballStrategy_def calculateAvalancheStrategy_def
    calculateHybridStrategy_def
  by (simp only: calculateDebtStrategy_fails calculateDebtStrategy_succeeds
      snowballSorted_def avalancheSorted_def totalMinimumsOf_sortBy_exact
      totalMinimumsOf_hybridSorted_exact simp_thms)

theorem insufficient_payment_iff_witness:
  "calculateAvalancheStrategy roundDouble [debtA, debtB] 149 =
     Inl (Error ''Available payment is less than total minimum payments required'')
   \<and> calculateHybridStrategy roundDouble [debtA, debtB] 120 =
     Inl (Error ''Available payment is less than total minimum payments required'')
   \<and> (\<exists>r. calculateSnowballStrategy roundDouble [debtA, debtB] 150 = Inr r)"
proof -
  have a: "(149::rat) < totalMinimumsOf roundDouble (avalancheSorted [debtA, debtB])"
    by code_simp
  have h: "(120::rat) < totalMinimumsOf roundDouble (hybridSorted roundDouble [debtA, debtB])"
    by code_simp
  have s: "totalMinimumsOf roundDouble (snowballSorted [debtA, debtB]) \<le> 150"
    by code_simp
  show ?thesis
    using insufficient_payment_iff [of roundDouble "[debtA, debtB]" 149 snowball "[debtA, debtB]"]
      insufficient_payment_iff [of roundDouble "[debtA, debtB]" 150 snowball "[debtA, debtB]"]
      insufficient_payment_iff [of roundDouble "[debtA, debtB]" 120 snowball "[debtA, debtB]"]
      a h s
    by simp
qed

text \<open>
  The sum of the three minimum payments 1, 1.2 and 1.2 (as doubles) is the double 3.4.
  Added in the order x, y, z the computed sum is the next double above 3.4, so that with
  a budget of 3.4 the snowball strategy fails, although the minimum payments do not
  exceed the budget; added in the order y, z, x it is 3.4, and the avalanche strategy
  returns an analysis for the same debts and budget.
\<close>

theorem computed_sum_exceeds_budget:
  "calculateSnowballStrategy roundDouble [cardX, cardY, cardZ] (roundDouble (17 / 5)) =
     Inl (Error ''Available payment is less than total minimum payments required'')
   \<and> (\<exists>r. calculateAvalancheStrategy roundDouble [cardX, cardY, cardZ] (roundDouble (17 / 5))
            = Inr r)
   \<and> sum_list (map minimumPayment [cardX, cardY, cardZ]) = roundDouble (17 / 5)"
proof -
  have s: "roundDouble (17 / 5) < totalMinimumsOf roundDouble (snowballSorted [cardX, cardY, cardZ])"
    by code_simp
  have a: "totalMinimumsOf roundDouble (avalancheSorted [cardX, cardY, cardZ]) \<le> roundDouble (17 / 5)"
    by code_simp
  have e: "sum_list (map minimumPayment [cardX, cardY, cardZ]) = roundDouble (17 / 5)"
    by code_simp
  show ?thesis
    using s a e
    by (simp only: calculateSnowballStrategy_def calculateAvalancheStrategy_def
        calculateDebtStrategy_fails calculateDebtStrategy_succeeds simp_thms)
qed

section \<open>Total interest\<close>

lemma fold_processDebt_schedule [simp]: "schedule (fold (processDebt rnd) is st) = schedule st"
  by (rule fold_processDebt_invariant [where P = "\<lambda>s. schedule s = schedule st"])
     (simp_all add: processDebt_def Let_def)

lemma fold_processDebt_interestTotal [simp]:
  "interestTotal (fold (processDebt rnd) is st) = interestTotal st"
  by (rule fold_processDebt_invariant [where P = "\<lambda>s. interestTotal s = interestTotal st"])
     (simp_all add: processDebt_def Let_def)










section \<open>The ordering policies permute the debts\<close>

lemma set_insertBy: "set (insertBy cmp x xs) = insert x (set xs)"
  by (induction xs) auto

lemma sorted_insertBy:
  fixes f :: "'a \<Rightarrow> rat"
  assumes "\<And>a b. (cmp a b \<le> 0) = (f a \<le> f b)"
    and "sorted (map f xs)"
  shows "sorted (map f (insertBy cmp x xs))"
  using assms(2)
proof (induction xs)
  case Nil
  then show ?case by simp
next
  case (Cons y ys)
  show ?case
  proof (cases "cmp x y \<le> 0")
    case True
    then have "f x \<le> f y"
      using assms(1) by simp
    then show ?thesis
      using True Cons.prems by auto
  next
    case False
    then have "f y \<le> f x"
      using assms(1) [of x y] by simp
    then show ?thesis
      using False Cons by (auto simp: set_insertBy)
  qed
qed

lemma sorted_sortBy:
  fixes f :: "'a \<Rightarrow> rat"
  assumes "\<And>a b. (cmp a b \<le> 0) = (f a \<le> f b)"
  shows "sorted (map f (sortBy cmp xs))"
proof (induction xs)
  case Nil
  then show ?case by (simp add: sortBy_def)
next
  case (Cons x xs)
  have "sortBy cmp (x # xs) = insertBy cmp x (sortBy cmp xs)"
    by (simp add: sortBy_def)
  then show ?case
    using sorted_insertBy [OF assms Cons.IH] by simp
qed

lemma truncate_scoreDebt: "Debt.truncate (scoreDebt rnd d) = d"
  by (simp add: scoreDebt_def Debt.defs ScoredDebt.defs)

text \<open>
  Claim C6. For every input debt list, the ordered sequence each strategy operates on is
  a permutation of the input: the snowball and avalanche sequences hold the same debts,
  the hybrid sequence holds the same debts each extended with its score, and in all three
  the multiset of debt ids is that of the input. The snowball sequence ascends by balance,
  the avalanche sequence descends by interest rate, and the hybrid sequence ascends by
  the blended score (balance / 10000) * 0.4 + rate * 0.6, as the code computes it.
\<close>

theorem ordering_is_permutation:
  "mset (snowballSorted ds) = mset ds
   \<and> mset (map id' (snowballSorted ds)) = mset (map id' ds)
   \<and> sorted (map balance (snowballSorted ds))
   \<and> mset (avalancheSorted ds) = mset ds
   \<and> mset (map id' (avalancheSorted ds)) = mset (map id' ds)
   \<and> sorted_wrt (\<lambda>a b. a \<ge> b) (map interestRate (avalancheSorted ds))
   \<and> mset (map Debt.truncate (hybridSorted rnd debts)) = mset debts
   \<and> mset (map id' (hybridSorted rnd debts)) = mset (map id' debts)
   \<and> sorted (map (\<lambda>d. rnd (rnd (rnd (balance d / 10000) * rnd (4 / 10))
                         + rnd (interestRate d * rnd (6 / 10))))
               (hybridSorted rnd debts))"
proof -
  have s1: "mset (snowballSorted ds) = mset ds"
    by (simp add: snowballSorted_def mset_sortBy)
  have s2: "sorted (map balance (snowballSorted ds))"
    unfolding snowballSorted_def by (rule sorted_sortBy) simp
  have a1: "mset (avalancheSorted ds) = mset ds"
    by (simp add: avalancheSorted_def mset_sortBy)
  have "sorted (map (\<lambda>d. - interestRate d) (avalancheSorted ds))"
    unfolding avalancheSorted_def by (rule sorted_sortBy) simp
  then have a2: "sorted_wrt (\<lambda>a b. a \<ge> b) (map interestRate (avalancheSorted ds))"
    by (simp add: sorted_wrt_map)
  have h0: "mset (hybridSorted rnd debts) = mset (map (scoreDebt rnd) debts)"
    by (simp add: hybridSorted_def mset_sortBy)
  have "mset (map Debt.truncate (hybridSorted rnd debts))
          = image_mset Debt.truncate (mset (map (scoreDebt rnd) debts))"
    using h0 by (metis mset_map)
  then have h1: "mset (map Debt.truncate (hybridSorted rnd debts)) = mset debts"
    by (simp add: multiset.map_comp comp_def truncate_scoreDebt)
  have "mset (map id' (hybridSorted rnd debts)) = image_mset id' (mset (map (scoreDebt rnd) debts))"
    using h0 by (metis mset_map)
  then have h2: "mset (map id' (hybridSorted rnd debts)) = mset (map id' debts)"
    by (simp add: multiset.map_comp comp_def id_scoreDebt)
  have "sorted (map hybridScore (hybridSorted rnd debts))"
    unfolding hybridSorted_def by (rule sorted_sortBy) simp
  moreover have "\<forall>x \<in> set (hybridSorted rnd debts).
      hybridScore x = rnd (rnd (rnd (balance x / 10000) * rnd (4 / 10))
                           + rnd (interestRate x * rnd (6 / 10)))"
  proof
    fix x
    assume "x \<in> set (hybridSorted rnd debts)"
    then have "x \<in># mset (map (scoreDebt rnd) debts)"
      using h0 by (metis set_mset_mset)
    then obtain d where "x = scoreDebt rnd d"
      by auto
    then show "hybridScore x = rnd (rnd (rnd (balance x / 10000) * rnd (4 / 10))
                                    + rnd (interestRate x * rnd (6 / 10)))"
      by (simp add: hybridScore_scoreDebt balance_scoreDebt interestRate_scoreDebt)
  qed
  then have "map hybridScore (hybridSorted rnd debts)
      = map (\<lambda>d. rnd (rnd (rnd (balance d / 10000) * rnd (4 / 10))
                         + rnd (interestRate d * rnd (6 / 10)))) (hybridSorted rnd debts)"
    by simp
  ultimately have h3: "sorted (map (\<lambda>d. rnd (rnd (rnd (balance d / 10000) * rnd (4 / 10))
                         + rnd (interestRate d * rnd (6 / 10))))
               (hybridSorted rnd debts))"
    by simp
  from s1 a1 have "mset (map id' (snowballSorted ds)) = mset (map id' ds)"
    and "mset (map id' (avalancheSorted ds)) = mset (map id' ds)"
    by (metis mset_map)+
  with s1 s2 a1 a2 h1 h2 h3 show ?thesis
    by blast
qed

theorem ordering_is_permutation_witness:
  "snowballSorted [debtB, debtA, loan1200] = [debtA, loan1200, debtB]
   \<and> avalancheSorted [debtB, debtA, loan1200] = [debtA, loan1200, debtB]
   \<and> map id' (hybridSorted roundDouble [debtA, debtB, loan1200]) = [''B'', ''loan'', ''A'']
   \<and> mset (map id' (hybridSorted roundDouble [debtA, debtB, loan1200]))
       = mset (map id' [debtA, debtB, loan1200])"
proof -
  have s: "snowballSorted [debtB, debtA, loan1200] = [debtA, loan1200, debtB]"
    by code_simp
  have a: "avalancheSorted [debtB, debtA, loan1200] = [debtA, loan1200, debtB]"
    by code_simp
  have h: "map id' (hybridSorted roundDouble [debtA, debtB, loan1200]) = [''B'', ''loan'', ''A'']"
    by code_simp
  have "mset (map id' (hybridSorted roundDouble [debtA, debtB, loan1200]))
          = mset (map id' [debtA, debtB, loan1200])"
    using ordering_is_permutation
      [of "[debtB, debtA, loan1200]" roundDouble "[debtA, debtB, loan1200]"]
    by (elim conjE)
  with s a h show ?thesis
    by (intro conjI)
qed

section \<open>Where the extra payment goes\<close>

text \<open>
  Claim C1 says that the extra amount goes, each month, to the first debt in priority
  order that still has a positive balance. The source's comment says the same
  (\<open>Apply extra payment to first debt with balance\<close>), but the test is \<open>i === 0\<close>: only
  the debt at index 0 can receive the extra. With the debts \<open>small1\<close> (balance 100) and
  \<open>small2\<close> (balance 120), both without interest and with minimum payment 50, and a
  budget of 200, the extra is 100. Month 1 pays off \<open>small1\<close> and leaves \<open>small2\<close> at
  70. In month 2 \<open>small2\<close> is the first debt still owing, yet it is paid its minimum of
  50 only, and the plan needs a third month. Every number of this run is a double, so
  that no operation rounds.
\<close>

theorem extra_stays_at_index_0:
  "calculateDebtStrategy roundDouble [small1, small2] 200 snowball =
     Inr \<lparr>strategy = snowball, totalInterest = 0, payoffTimeMonths = 3, monthlyPayment = 200,
          paymentSchedule =
            [\<lparr>month = 1, principal = 150, interest = 0, pbBalance = 70, totalPayment = 150\<rparr>,
             \<lparr>month = 2, principal = 50, interest = 0, pbBalance = 20, totalPayment = 50\<rparr>,
             \<lparr>month = 3, principal = 20, interest = 0, pbBalance = 0, totalPayment = 20\<rparr>],
          debtOrder = [''s1'', ''s2'']\<rparr>
   \<and> calculateDebtStrategy (\<lambda>x. x) [small1, small2] 200 snowball =
       calculateDebtStrategy roundDouble [small1, small2] 200 snowball"
  by code_simp

section \<open>Length and monotonicity of the schedule\<close>

text \<open>
  A debt whose minimum payment covers the interest that the code computes on its balance
  (the rounded product of the balance and the rounded monthly rate), with balance and
  rate not negative. The balance is a double, as every number that the code receives.
  For such a debt the principal paid each month is not negative.
\<close>

definition amortizing :: "(rat \<Rightarrow> rat) \<Rightarrow> 'a Debt_scheme \<Rightarrow> bool" where
  "amortizing rnd d \<longleftrightarrow>
     0 \<le> balance d \<and> 0 \<le> interestRate d \<and> rnd (balance d) = balance d
     \<and> rnd (balance d * calculateMonthlyRate rnd (interestRate d)) \<le> minimumPayment d"

text \<open>The payment schedule of a call's outcome; a failed call has none.\<close>

definition scheduleOf :: "error + DebtAnalysis \<Rightarrow> PaymentBreakdown list" where
  "scheduleOf res = (case res of Inl e \<Rightarrow> [] | Inr r \<Rightarrow> paymentSchedule r)"

lemma schedule_length_invariant:
  assumes "length (schedule st) + 1 = monthCounter st" and "monthCounter st \<le> 601"
  shows "length (schedule (whileLoop rnd a t st)) + 1 = monthCounter (whileLoop rnd a t st)
         \<and> monthCounter (whileLoop rnd a t st) \<le> 601"
proof (rule whileLoop_invariant
        [where P = "\<lambda>s. length (schedule s) + 1 = monthCounter s \<and> monthCounter s \<le> 601"])
  show "length (schedule st) + 1 = monthCounter st \<and> monthCounter st \<le> 601"
    using assms by simp
next
  fix s :: "'a State"
  assume "length (schedule s) + 1 = monthCounter s \<and> monthCounter s \<le> 601"
    and "loopCond rnd s"
  then show "length (schedule (monthBody rnd a t s)) + 1 = monthCounter (monthBody rnd a t s)
             \<and> monthCounter (monthBody rnd a t s) \<le> 601"
    by (simp add: monthBody_def forLoop_def Let_def loopCond_def)
qed

text \<open>What the proofs below use of a rounding function.\<close>

lemma rounding_mono: "rounding rnd \<Longrightarrow> x \<le> y \<Longrightarrow> rnd x \<le> rnd y"
  by (simp add: rounding_def mono_def)

lemma rounding_zero: "rounding rnd \<Longrightarrow> rnd 0 = 0"
  by (simp add: rounding_def)

lemma rounding_idem: "rounding rnd \<Longrightarrow> rnd (rnd x) = rnd x"
  by (simp add: rounding_def)

lemma rounding_nonneg: "rounding rnd \<Longrightarrow> 0 \<le> x \<Longrightarrow> 0 \<le> rnd x"
  using rounding_mono [of rnd 0 x] by (simp add: rounding_zero)

lemma calculateMonthlyRate_nonneg:
  assumes "rounding rnd" and "0 \<le> r"
  shows "0 \<le> calculateMonthlyRate rnd r"
proof -
  have "0 \<le> r / 100"
    using assms(2) by simp
  then have "0 \<le> rnd (r / 100)"
    by (rule rounding_nonneg [OF assms(1)])
  then have "0 \<le> rnd (r / 100) / 12"
    by simp
  then show ?thesis
    unfolding calculateMonthlyRate_def by (rule rounding_nonneg [OF assms(1)])
qed

text \<open>
  A sum of doubles, added left to right with rounding, does not decrease when a summand
  is replaced by a larger one, and is not negative when no summand is.
\<close>

lemma foldl_rnd_mono:
  fixes f :: "'a \<Rightarrow> rat"
  assumes "rounding rnd" and "list_all2 (\<lambda>x y. f x \<le> f y) xs ys" and "a \<le> b"
  shows "foldl (\<lambda>sum d. rnd (sum + f d)) a xs \<le> foldl (\<lambda>sum d. rnd (sum + f d)) b ys"
  using assms(2,3)
proof (induction arbitrary: a b rule: list_all2_induct)
  case Nil
  then show ?case by simp
next
  case (Cons x xs y ys)
  have "a + f x \<le> b + f y"
    using Cons.hyps(1) Cons.prems by simp
  then have "rnd (a + f x) \<le> rnd (b + f y)"
    by (rule rounding_mono [OF assms(1)])
  then show ?case
    using Cons.IH by simp
qed

lemma foldl_rnd_nonneg:
  fixes f :: "'a \<Rightarrow> rat"
  assumes "rounding rnd" and "\<forall>x \<in> set xs. 0 \<le> f x" and "0 \<le> a"
  shows "0 \<le> foldl (\<lambda>sum d. rnd (sum + f d)) a xs"
  using assms(2,3)
proof (induction xs arbitrary: a)
  case Nil
  then show ?case by simp
next
  case (Cons x xs)
  have "0 \<le> a + f x"
    using Cons.prems by simp
  then have "0 \<le> rnd (a + f x)"
    by (rule rounding_nonneg [OF assms(1)])
  then show ?case
    using Cons.IH Cons.prems(1) by simp
qed

lemma totalBalance_update:
  assumes "rounding rnd" and "i < length xs" and "balance y \<le> balance (xs ! i)"
  shows "totalBalance rnd (xs[i := y]) \<le> totalBalance rnd xs"
proof -
  have "list_all2 (\<lambda>x y. balance x \<le> balance y) (xs[i := y]) xs"
    using assms(2,3) by (simp add: list_all2_conv_all_nth nth_list_update)
  then show ?thesis
    unfolding totalBalance_def by (rule foldl_rnd_mono [OF assms(1)]) simp
qed

lemma amortizing_update:
  assumes "rounding rnd" and "amortizing rnd d"
    and "0 \<le> b" and "b \<le> balance d" and "rnd b = b"
  shows "amortizing rnd (d\<lparr>balance := b\<rparr>)"
proof -
  have "0 \<le> interestRate d"
    using assms(2) by (simp add: amortizing_def)
  then have "0 \<le> calculateMonthlyRate rnd (interestRate d)"
    by (rule calculateMonthlyRate_nonneg [OF assms(1)])
  then have "b * calculateMonthlyRate rnd (interestRate d)
               \<le> balance d * calculateMonthlyRate rnd (interestRate d)"
    using assms(4) by (rule mult_right_mono [rotated])
  then have "rnd (b * calculateMonthlyRate rnd (interestRate d))
               \<le> rnd (balance d * calculateMonthlyRate rnd (interestRate d))"
    by (rule rounding_mono [OF assms(1)])
  then show ?thesis
    using assms(2,3,5) by (simp add: amortizing_def)
qed

text \<open>
  The quantities that \<open>processDebt\<close> computes for a debt still owing, named so that the
  lemmas below can speak about them.
\<close>

definition interestFor :: "(rat \<Rightarrow> rat) \<Rightarrow> nat \<Rightarrow> 'a State \<Rightarrow> rat" where
  "interestFor rnd i st =
     rnd (balance (debtCopies st ! i)
          * calculateMonthlyRate rnd (interestRate (debtCopies st ! i)))"

definition paymentFor :: "(rat \<Rightarrow> rat) \<Rightarrow> nat \<Rightarrow> 'a State \<Rightarrow> rat" where
  "paymentFor rnd i st =
     (if extraPayment st > 0 \<and> i = 0
      then rnd (minimumPayment (debtCopies st ! i) + extraPayment st)
      else minimumPayment (debtCopies st ! i))"

definition principalFor :: "(rat \<Rightarrow> rat) \<Rightarrow> nat \<Rightarrow> 'a State \<Rightarrow> rat" where
  "principalFor rnd i st =
     min (rnd (paymentFor rnd i st - interestFor rnd i st)) (balance (debtCopies st ! i))"

definition paidOffAt :: "(rat \<Rightarrow> rat) \<Rightarrow> nat \<Rightarrow> 'a State \<Rightarrow> bool" where
  "paidOffAt rnd i st \<longleftrightarrow>
     rnd (balance (debtCopies st ! i) - principalFor rnd i st) \<le> rnd (1 / 100)
     \<and> id' (debtCopies st ! i) \<notin> set (order st)"

definition balanceAfter :: "(rat \<Rightarrow> rat) \<Rightarrow> nat \<Rightarrow> 'a State \<Rightarrow> rat" where
  "balanceAfter rnd i st =
     (if paidOffAt rnd i st then 0
      else rnd (balance (debtCopies st ! i) - principalFor rnd i st))"

lemma processDebt_skip:
  assumes "balance (debtCopies st ! i) \<le> rnd (1 / 100)"
  shows "processDebt rnd i st = st"
  using assms by (simp add: processDebt_def)

lemma processDebt_active:
  assumes "\<not> balance (debtCopies st ! i) \<le> rnd (1 / 100)"
  shows "processDebt rnd i st =
     st\<lparr>debtCopies :=
          (debtCopies st)[i := (debtCopies st ! i)\<lparr>balance := balanceAfter rnd i st\<rparr>],
        order := (if paidOffAt rnd i st then order st @ [id' (debtCopies st ! i)]
                  else order st),
        monthlyInterest := rnd (monthlyInterest st + interestFor rnd i st),
        monthlyPrincipal := rnd (monthlyPrincipal st + principalFor rnd i st),
        extraPayment := (if extraPayment st > 0 \<and> i = 0 then 0 else extraPayment st)\<rparr>"
  unfolding processDebt_def Let_def balanceAfter_def paidOffAt_def principalFor_def
    paymentFor_def interestFor_def
  using assms by (simp only: if_False)

text \<open>
  For an amortizing debt the payment covers the interest, so that the new balance lies
  between 0 and the old one.
\<close>

lemma balanceAfter_bounds:
  assumes "rounding rnd" and "amortizing rnd (debtCopies st ! i)"
    and "0 \<le> extraPayment st"
  shows "0 \<le> balanceAfter rnd i st"
    and "balanceAfter rnd i st \<le> balance (debtCopies st ! i)"
    and "rnd (balanceAfter rnd i st) = balanceAfter rnd i st"
proof -
  define debt where "debt = debtCopies st ! i"
  have am: "0 \<le> balance debt" "rnd (balance debt) = balance debt"
    "interestFor rnd i st \<le> minimumPayment debt"
    using assms(2) by (simp_all add: amortizing_def debt_def interestFor_def)
  have fixed: "rnd (interestFor rnd i st) = interestFor rnd i st"
    using assms(1) by (simp add: interestFor_def rounding_idem)
  have "interestFor rnd i st \<le> paymentFor rnd i st"
  proof (cases "extraPayment st > 0 \<and> i = 0")
    case True
    have "interestFor rnd i st \<le> minimumPayment debt + extraPayment st"
      using am(3) assms(3) by simp
    then have "rnd (interestFor rnd i st) \<le> rnd (minimumPayment debt + extraPayment st)"
      by (rule rounding_mono [OF assms(1)])
    moreover have "paymentFor rnd i st = rnd (minimumPayment debt + extraPayment st)"
      unfolding paymentFor_def debt_def using True by (rule if_P)
    ultimately show ?thesis
      using fixed by simp
  next
    case False
    have "paymentFor rnd i st = minimumPayment debt"
      unfolding paymentFor_def debt_def using False by (rule if_not_P)
    then show ?thesis
      using am(3) by simp
  qed
  then have "0 \<le> paymentFor rnd i st - interestFor rnd i st"
    by simp
  then have "0 \<le> rnd (paymentFor rnd i st - interestFor rnd i st)"
    by (rule rounding_nonneg [OF assms(1)])
  then have p: "0 \<le> principalFor rnd i st" "principalFor rnd i st \<le> balance debt"
    using am(1) by (simp_all add: principalFor_def debt_def)
  have "0 \<le> balance debt - principalFor rnd i st"
    using p(2) by simp
  then have n0: "0 \<le> rnd (balance debt - principalFor rnd i st)"
    by (rule rounding_nonneg [OF assms(1)])
  have "balance debt - principalFor rnd i st \<le> balance debt"
    using p(1) by simp
  then have "rnd (balance debt - principalFor rnd i st) \<le> rnd (balance debt)"
    by (rule rounding_mono [OF assms(1)])
  then have n1: "rnd (balance debt - principalFor rnd i st) \<le> balance debt"
    using am(2) by simp
  show "0 \<le> balanceAfter rnd i st"
    using n0 by (simp add: balanceAfter_def debt_def)
  show "balanceAfter rnd i st \<le> balance (debtCopies st ! i)"
    using n1 am(1) by (simp add: balanceAfter_def debt_def)
  show "rnd (balanceAfter rnd i st) = balanceAfter rnd i st"
    using assms(1) by (simp add: balanceAfter_def rounding_zero rounding_idem)
qed

lemma processDebt_amortizing:
  assumes "rounding rnd"
    and "list_all (amortizing rnd) (debtCopies st)" and "0 \<le> extraPayment st"
    and "i < length (debtCopies st)"
  shows "list_all (amortizing rnd) (debtCopies (processDebt rnd i st))
         \<and> 0 \<le> extraPayment (processDebt rnd i st)
         \<and> totalBalance rnd (debtCopies (processDebt rnd i st))
             \<le> totalBalance rnd (debtCopies st)"
proof (cases "balance (debtCopies st ! i) \<le> rnd (1 / 100)")
  case True
  then show ?thesis
    using assms by (simp add: processDebt_skip)
next
  case False
  define debt where "debt = debtCopies st ! i"
  have am: "amortizing rnd debt"
    using assms(2,4) by (simp add: debt_def list_all_length)
  have b: "0 \<le> balanceAfter rnd i st" "balanceAfter rnd i st \<le> balance debt"
    "rnd (balanceAfter rnd i st) = balanceAfter rnd i st"
    using balanceAfter_bounds [OF assms(1) am [unfolded debt_def] assms(3)]
    by (simp_all add: debt_def)
  have copies: "debtCopies (processDebt rnd i st)
                  = (debtCopies st)[i := debt\<lparr>balance := balanceAfter rnd i st\<rparr>]"
    by (simp add: processDebt_active [where rnd = rnd, OF False] debt_def)
  have extra: "0 \<le> extraPayment (processDebt rnd i st)"
    using assms(3) by (simp add: processDebt_active [where rnd = rnd, OF False])
  have "amortizing rnd (debt\<lparr>balance := balanceAfter rnd i st\<rparr>)"
    using assms(1) am b by (rule amortizing_update)
  then have all: "list_all (amortizing rnd) (debtCopies (processDebt rnd i st))"
    using assms(2) set_update_subset_insert [of "debtCopies st" i]
    by (auto simp: copies list_all_iff)
  have "balance (debt\<lparr>balance := balanceAfter rnd i st\<rparr>) \<le> balance (debtCopies st ! i)"
    using b(2) by (simp add: debt_def)
  then have "totalBalance rnd (debtCopies (processDebt rnd i st))
          \<le> totalBalance rnd (debtCopies st)"
    unfolding copies by (rule totalBalance_update [OF assms(1,4)])
  with all extra show ?thesis by simp
qed

lemma fold_processDebt_amortizing:
  assumes "rounding rnd"
    and "list_all (amortizing rnd) (debtCopies st)" and "0 \<le> extraPayment st"
    and "\<forall>i \<in> set is. i < length (debtCopies st)"
  shows "list_all (amortizing rnd) (debtCopies (fold (processDebt rnd) is st))
         \<and> 0 \<le> extraPayment (fold (processDebt rnd) is st)
         \<and> totalBalance rnd (debtCopies (fold (processDebt rnd) is st))
             \<le> totalBalance rnd (debtCopies st)"
  using assms(2-)
proof (induction "is" arbitrary: st)
  case Nil
  then show ?case by simp
next
  case (Cons i "is")
  have step: "list_all (amortizing rnd) (debtCopies (processDebt rnd i st))
         \<and> 0 \<le> extraPayment (processDebt rnd i st)
         \<and> totalBalance rnd (debtCopies (processDebt rnd i st))
             \<le> totalBalance rnd (debtCopies st)"
    using assms(1) Cons.prems by (intro processDebt_amortizing) simp_all
  have "list_all (amortizing rnd) (debtCopies (fold (processDebt rnd) is (processDebt rnd i st)))
         \<and> 0 \<le> extraPayment (fold (processDebt rnd) is (processDebt rnd i st))
         \<and> totalBalance rnd (debtCopies (fold (processDebt rnd) is (processDebt rnd i st)))
             \<le> totalBalance rnd (debtCopies (processDebt rnd i st))"
    using step Cons.prems(3) by (intro Cons.IH) simp_all
  with step show ?case by simp
qed

lemma totalBalance_nonneg:
  assumes "rounding rnd" and "list_all (amortizing rnd) ds"
  shows "0 \<le> totalBalance rnd ds"
proof -
  have "\<forall>d \<in> set ds. 0 \<le> balance d"
    using assms(2) by (simp add: list_all_iff amortizing_def)
  then show ?thesis
    unfolding totalBalance_def by (rule foldl_rnd_nonneg [OF assms(1)]) simp
qed

text \<open>The loop invariant: every recorded balance is at least the current total and not negative.\<close>

definition balancesDecrease :: "(rat \<Rightarrow> rat) \<Rightarrow> 'a State \<Rightarrow> bool" where
  "balancesDecrease rnd st \<longleftrightarrow>
     list_all (amortizing rnd) (debtCopies st)
     \<and> list_all (\<lambda>p. 0 \<le> pbBalance p \<and> totalBalance rnd (debtCopies st) \<le> pbBalance p)
         (schedule st)
     \<and> sorted_wrt (\<lambda>a b. a \<ge> b) (map pbBalance (schedule st))"

lemma monthBody_balancesDecrease:
  assumes "rounding rnd" and "balancesDecrease rnd st" and "t \<le> a"
  shows "balancesDecrease rnd (monthBody rnd a t st)"
proof -
  define st0 where
    "st0 = st\<lparr>monthlyInterest := 0, monthlyPrincipal := 0, extraPayment := rnd (a - t)\<rparr>"
  define st1 where "st1 = forLoop rnd st0"
  have "0 \<le> a - t"
    using assms(3) by simp
  then have "0 \<le> rnd (a - t)"
    by (rule rounding_nonneg [OF assms(1)])
  then have f: "list_all (amortizing rnd) (debtCopies st1)
         \<and> 0 \<le> extraPayment st1
         \<and> totalBalance rnd (debtCopies st1) \<le> totalBalance rnd (debtCopies st0)"
    unfolding st1_def forLoop_def
    using assms(1,2)
    by (intro fold_processDebt_amortizing) (simp_all add: st0_def balancesDecrease_def)
  have sch: "schedule st1 = schedule st"
    by (simp add: st1_def forLoop_def st0_def)
  have le: "totalBalance rnd (debtCopies st1) \<le> totalBalance rnd (debtCopies st)"
    using f by (simp add: st0_def)
  have nn: "0 \<le> totalBalance rnd (debtCopies st1)"
    using assms(1) f by (simp add: totalBalance_nonneg)
  have body: "debtCopies (monthBody rnd a t st) = debtCopies st1"
    "schedule (monthBody rnd a t st) = schedule st @
       [\<lparr>month = monthCounter st1, principal = monthlyPrincipal st1,
         interest = monthlyInterest st1, pbBalance = totalBalance rnd (debtCopies st1),
         totalPayment = rnd (monthlyPrincipal st1 + monthlyInterest st1)\<rparr>]"
    by (simp_all add: monthBody_def Let_def st1_def st0_def sch [unfolded st1_def st0_def])
  show ?thesis
    unfolding balancesDecrease_def body
    using assms(2) f le nn
    by (auto simp: balancesDecrease_def list_all_iff sorted_wrt_append)
qed

lemma whileLoop_balancesDecrease:
  assumes "rounding rnd" and "balancesDecrease rnd st" and "t \<le> a"
  shows "balancesDecrease rnd (whileLoop rnd a t st)"
  using assms(2)
  by (rule whileLoop_invariant) (rule monthBody_balancesDecrease [OF assms(1) _ assms(3)])

lemma amortizing_scoreDebt: "amortizing rnd (scoreDebt rnd' d) = amortizing rnd d"
  by (simp add: amortizing_def balance_scoreDebt interestRate_scoreDebt minimumPayment_scoreDebt)

lemma set_sortBy: "set (sortBy cmp xs) = set xs"
  by (metis mset_sortBy set_mset_mset)

text \<open>
  What is claimed of a call's outcome \<open>res\<close> for the debts \<open>ds\<close>: it is an analysis with
  at most 600 records, one per month counted; and when every debt is amortizing, the
  recorded balances are not negative and never increase. The second part rests on three
  properties of rounding: it is monotone, it is exact on 0 and it leaves a double as
  it is.
\<close>

definition wellBehaved ::
  "(rat \<Rightarrow> rat) \<Rightarrow> 'a Debt_scheme list \<Rightarrow> error + DebtAnalysis \<Rightarrow> bool" where
  "wellBehaved rnd ds res \<longleftrightarrow>
     (\<exists>r. res = Inr r
        \<and> length (paymentSchedule r) \<le> 600
        \<and> payoffTimeMonths r = length (paymentSchedule r)
        \<and> (rounding rnd \<and> list_all (amortizing rnd) ds \<longrightarrow>
             list_all (\<lambda>p. 0 \<le> pbBalance p) (paymentSchedule r)
             \<and> sorted_wrt (\<lambda>a b. a \<ge> b) (map pbBalance (paymentSchedule r))))"

lemma calculateDebtStrategy_wellBehaved:
  assumes "totalMinimumsOf rnd ds \<le> ap"
    and "list_all (amortizing rnd) xs \<Longrightarrow> list_all (amortizing rnd) ds"
  shows "wellBehaved rnd xs (calculateDebtStrategy rnd ds ap strat)"
proof -
  define fin where "fin = whileLoop rnd ap (totalMinimumsOf rnd ds) (initialState ds)"
  have len: "length (schedule fin) + 1 = monthCounter fin \<and> monthCounter fin \<le> 601"
    unfolding fin_def by (rule schedule_length_invariant) (simp_all add: initialState_def)
  have dec: "balancesDecrease rnd fin" if "rounding rnd" and "list_all (amortizing rnd) ds"
    unfolding fin_def
    by (rule whileLoop_balancesDecrease [OF that(1) _ assms(1)])
       (simp add: balancesDecrease_def initialState_def that(2))
  have res: "calculateDebtStrategy rnd ds ap strat =
          Inr \<lparr>strategy = strat, totalInterest = interestTotal fin,
               payoffTimeMonths = monthCounter fin - 1, monthlyPayment = ap,
               paymentSchedule = schedule fin, debtOrder = order fin\<rparr>"
    using assms(1) by (simp add: calculateDebtStrategy_unfold fin_def)
  show ?thesis
    unfolding wellBehaved_def res
    using len dec assms(2)
    by (auto simp: balancesDecrease_def list_all_iff)
qed

text \<open>
  Claim C2, amended. For every debt list and every budget at least the sum of the minimum
  payments (the sum that the code computes over the ordered debts), the simulation
  returns an analysis with at most 600 payment-period records. If moreover every debt
  has a non-negative balance, a non-negative rate and a minimum payment that covers the
  interest computed on its balance, the recorded aggregate balances are non-negative and
  non-increasing. This holds through each of the strategy functions.
\<close>

theorem schedule_bounded_and_decreasing:
  "(totalMinimumsOf rnd ds \<le> ap
      \<longrightarrow> wellBehaved rnd ds (calculateDebtStrategy rnd ds ap strat))
   \<and> (totalMinimumsOf rnd (snowballSorted ds) \<le> ap
      \<longrightarrow> wellBehaved rnd ds (calculateSnowballStrategy rnd ds ap))
   \<and> (totalMinimumsOf rnd (avalancheSorted ds) \<le> ap
      \<longrightarrow> wellBehaved rnd ds (calculateAvalancheStrategy rnd ds ap))
   \<and> (totalMinimumsOf rnd (hybridSorted rnd debts) \<le> ap
      \<longrightarrow> wellBehaved rnd debts (calculateHybridStrategy rnd debts ap))"
proof -
  have "wellBehaved rnd ds (calculateDebtStrategy rnd ds ap strat)"
    if "totalMinimumsOf rnd ds \<le> ap"
    using that by (rule calculateDebtStrategy_wellBehaved)
  moreover have "wellBehaved rnd ds (calculateSnowballStrategy rnd ds ap)"
    if "totalMinimumsOf rnd (snowballSorted ds) \<le> ap"
    unfolding calculateSnowballStrategy_def
    using that
    by (rule calculateDebtStrategy_wellBehaved)
       (simp add: snowballSorted_def list_all_iff set_sortBy)
  moreover have "wellBehaved rnd ds (calculateAvalancheStrategy rnd ds ap)"
    if "totalMinimumsOf rnd (avalancheSorted ds) \<le> ap"
    unfolding calculateAvalancheStrategy_def
    using that
    by (rule calculateDebtStrategy_wellBehaved)
       (simp add: avalancheSorted_def list_all_iff set_sortBy)
  moreover have "wellBehaved rnd debts (calculateHybridStrategy rnd debts ap)"
    if "totalMinimumsOf rnd (hybridSorted rnd debts) \<le> ap"
    unfolding calculateHybridStrategy_def
    using that
    by (rule calculateDebtStrategy_wellBehaved)
       (simp add: hybridSorted_def list_all_iff set_sortBy amortizing_scoreDebt)
  ultimately show ?thesis by blast
qed


end
